theory Spec2Isabelle
  imports Main "HOL-Library.Word"
begin

unbundle bit_operations_syntax

section \<open>Native words (int\_lib.h)\<close>

text \<open>
  \<^verbatim>\<open>si_int\<close> and \<^verbatim>\<open>su_int\<close> are the 32-bit signed and unsigned integers of
  \<^verbatim>\<open>int_lib.h\<close>. Both are bit patterns of the same width; \<open>sint\<close> reads the signed
  value and \<open>uint\<close> the unsigned one. Arithmetic on them wraps modulo \<open>2 ^ 32\<close>, and
  \<^verbatim>\<open>>>\<close> on a signed operand is the arithmetic shift.
\<close>

type_synonym si_int = "32 word"
type_synonym su_int = "32 word"

definition CHAR_BIT :: nat where
  "CHAR_BIT = 8"

definition sizeof_si_int :: nat where
  "sizeof_si_int = 4"

text \<open>The most negative \<^verbatim>\<open>si_int\<close>, bit pattern \<^verbatim>\<open>0x80000000\<close>.\<close>

definition SI_MIN :: si_int where
  "SI_MIN = 0x80000000"

section \<open>divsi3.c\<close>

text \<open>Line 26: \<^verbatim>\<open>bits_in_word_m1 = (int)(sizeof(si_int) * CHAR_BIT) - 1\<close>.\<close>

definition bits_in_word_m1 :: nat where
  "bits_in_word_m1 = sizeof_si_int * CHAR_BIT - 1"

text \<open>
  Lines 27 and 28: \<^verbatim>\<open>x >> bits_in_word_m1\<close>, the sign mask of \<open>x\<close>
  (\<^verbatim>\<open>x < 0 ? -1 : 0\<close> in the words of the source).
\<close>

definition sign_mask :: "si_int \<Rightarrow> si_int" where
  "sign_mask x = signed_drop_bit bits_in_word_m1 x"

text \<open>
  Lines 29, 30 and 32: \<^verbatim>\<open>(x ^ s) - s\<close>, which the source calls
  ``negate if \<^verbatim>\<open>s == -1\<close>''.
\<close>

definition negate_if :: "32 word \<Rightarrow> 32 word \<Rightarrow> 32 word" where
  "negate_if x s = (x XOR s) - s"

text \<open>
  \<^verbatim>\<open>__divsi3\<close>, lines 23 to 33. The unsigned divider \<^verbatim>\<open>__udivsi3\<close> is only
  declared in this file (line 19), so it is the parameter \<open>udivsi3\<close>. The source
  reassigns \<open>a\<close>, \<open>b\<close> and \<open>s_a\<close>; the reassigned values are \<open>a'\<close>, \<open>b'\<close> and
  \<open>s_q\<close> here.
\<close>

definition divsi3 :: "(su_int \<Rightarrow> su_int \<Rightarrow> su_int) \<Rightarrow> si_int \<Rightarrow> si_int \<Rightarrow> si_int" where
  "divsi3 udivsi3 a b =
    (let s_a = sign_mask a;
         s_b = sign_mask b;
         a' = negate_if a s_a;
         b' = negate_if b s_b;
         s_q = s_a XOR s_b
     in negate_if (udivsi3 a' b') s_q)"

text \<open>
  What the source assumes of \<^verbatim>\<open>__udivsi3\<close>: for a nonzero divisor it returns the
  truncated unsigned quotient.
\<close>

definition udivsi3_correct :: "(su_int \<Rightarrow> su_int \<Rightarrow> su_int) \<Rightarrow> bool" where
  "udivsi3_correct udivsi3 \<longleftrightarrow> (\<forall>n d. d \<noteq> 0 \<longrightarrow> udivsi3 n d = n div d)"

text \<open>
  The truncating (round toward zero) quotient of two integers, written from the words
  of the specification: the magnitude is the quotient of the magnitudes, and the sign is
  negative when the operands differ in sign.
\<close>

definition truncating_quotient :: "int \<Rightarrow> int \<Rightarrow> int" where
  "truncating_quotient x y =
    (if (x < 0) = (y < 0) then \<bar>x\<bar> div \<bar>y\<bar> else - (\<bar>x\<bar> div \<bar>y\<bar>))"

text \<open>
  Modelled from the spec: \<^verbatim>\<open>modulo_native\<close> (\<^verbatim>\<open>__modsi3\<close>), whose source file is
  not among the source files. It is the remainder that goes with the quotient of
  \<^verbatim>\<open>__divsi3\<close>: \<^verbatim>\<open>a - __divsi3(a, b) * b\<close>, modulo \<open>2 ^ 32\<close>.
\<close>

definition modulo_native :: "(su_int \<Rightarrow> su_int \<Rightarrow> su_int) \<Rightarrow> si_int \<Rightarrow> si_int \<Rightarrow> si_int" where
  "modulo_native udivsi3 a b = a - divsi3 udivsi3 a b * b"

section \<open>Double-width integers (int\_lib.h)\<close>

text \<open>
  \<^verbatim>\<open>di_int\<close> and \<^verbatim>\<open>du_int\<close> are 64 bits wide, \<^verbatim>\<open>ti_int\<close> and \<^verbatim>\<open>tu_int\<close> are
  128 bits wide (\<^verbatim>\<open>assumption_1\<close> on line 44 of the test: a \<^verbatim>\<open>ti_int\<close> is two
  \<^verbatim>\<open>di_int\<close>).
\<close>

type_synonym di_int = "64 word"
type_synonym du_int = "64 word"
type_synonym ti_int = "128 word"
type_synonym tu_int = "128 word"

text \<open>
  Modelled from the spec: the field \<^verbatim>\<open>s.high\<close> of the union \<^verbatim>\<open>twords\<close>, which
  \<^verbatim>\<open>int_lib.h\<close> declares and the source files do not hold. A double-width integer is
  \<open>high * 2 ^ 64 + low\<close>, so \<open>high\<close> is its upper 64 bits.
\<close>

definition twords_high :: "ti_int \<Rightarrow> di_int" where
  "twords_high x = ucast (drop_bit 64 x)"

text \<open>
  Modelled from the spec: the field \<^verbatim>\<open>s.low\<close> of the union \<^verbatim>\<open>twords\<close>, likewise
  missing: the lower 64 bits, which hold magnitude bits only.
\<close>

definition twords_low :: "ti_int \<Rightarrow> du_int" where
  "twords_low x = ucast x"

text \<open>
  Modelled from the spec: \<^verbatim>\<open>make_ti\<close> of \<^verbatim>\<open>int_lib.h\<close>, likewise missing. It
  composes a double-width integer of its halves, \<open>high * 2 ^ 64 + low\<close>, each half
  entering as 64 bits of the result.
\<close>

definition make_ti :: "di_int \<Rightarrow> di_int \<Rightarrow> ti_int" where
  "make_ti h l = ucast h * 2 ^ 64 + ucast l"

text \<open>The most negative \<^verbatim>\<open>ti_int\<close>, as the test table builds it (lines 78 to 89).\<close>

definition TI_MIN :: ti_int where
  "TI_MIN = make_ti 0x8000000000000000 0"

section \<open>The wide modulo under test\<close>

text \<open>
  Modelled from the spec: the unsigned wide divider (\<^verbatim>\<open>__udivmodti4\<close>), which is
  not among the source files. For a nonzero denominator it returns the double-width quotient
  and the double-width remainder of the truncating division of two unsigned values.
\<close>

definition udivmodti4 :: "tu_int \<Rightarrow> tu_int \<Rightarrow> tu_int \<times> tu_int" where
  "udivmodti4 n d = (n div d, n mod d)"

text \<open>
  Modelled from the spec: \<^verbatim>\<open>__modti3\<close>, of which the source files hold the
  declaration and the test only. It has the shape of the native wrapper, on
  double-width operands and around the wide unsigned divider: sign masks by arithmetic
  shift, magnitudes by XOR and subtract, and the remainder takes the sign of the
  dividend by the same idiom.
\<close>

definition modti3 :: "ti_int \<Rightarrow> ti_int \<Rightarrow> ti_int" where
  "modti3 a b =
    (let s_b = signed_drop_bit 127 b;
         b' = (b XOR s_b) - s_b;
         s_a = signed_drop_bit 127 a;
         a' = (a XOR s_a) - s_a;
         r = snd (udivmodti4 a' b')
     in (r XOR s_a) - s_a)"

section \<open>modti3\_test.c\<close>

text \<open>
  \<^verbatim>\<open>printf\<close> with \<^verbatim>\<open>%.16llX\<close>: the 64-bit argument in upper-case hexadecimal,
  padded with zeros to 16 digits, which is every digit of a 64-bit value.
\<close>

definition hex_digit :: "nat \<Rightarrow> char" where
  "hex_digit d = ''0123456789ABCDEF'' ! d"

definition hex16 :: "64 word \<Rightarrow> string" where
  "hex16 w = map (\<lambda>i. hex_digit (unat (drop_bit (4 * i) w AND 0xF))) (rev [0..<16])"

definition newline :: char where
  "newline = CHR 0x0A"

text \<open>
  The reading of hexadecimal text, for stating what the diagnostic renders: the value of
  an upper-case hexadecimal digit, and the number that a text of such digits denotes,
  most significant digit first.
\<close>

definition hex_digit_value :: "char \<Rightarrow> nat" where
  "hex_digit_value c = length (takeWhile (\<lambda>d. d \<noteq> c) ''0123456789ABCDEF'')"

definition hex_value :: "string \<Rightarrow> nat" where
  "hex_value s = foldl (\<lambda>acc c. 16 * acc + hex_digit_value c) 0 s"

text \<open>
  Lines 28 to 39: the text that \<^verbatim>\<open>printf\<close> writes for a failing case, with each of
  \<open>a\<close>, \<open>b\<close>, \<open>x\<close> and \<open>expected\<close> split into its high and low halves.
\<close>

definition diagnostic :: "ti_int \<Rightarrow> ti_int \<Rightarrow> ti_int \<Rightarrow> ti_int \<Rightarrow> string" where
  "diagnostic a b x expected =
    ''error in __modti3: 0x'' @ hex16 (twords_high a) @ hex16 (twords_low a) @
    '' % 0x'' @ hex16 (twords_high b) @ hex16 (twords_low b) @
    '' = 0x'' @ hex16 (twords_high x) @ hex16 (twords_low x) @
    '', expected 0x'' @ hex16 (twords_high expected) @ hex16 (twords_low expected) @
    [newline]"

text \<open>
  \<^verbatim>\<open>test__modti3\<close>, lines 23 to 42. The function under test is the parameter
  \<open>modti3_impl\<close>. The result is the text written to standard output and the returned
  \<^verbatim>\<open>int\<close>, which is \<^verbatim>\<open>x != expected\<close>.
\<close>

definition test__modti3 :: "(ti_int \<Rightarrow> ti_int \<Rightarrow> ti_int) \<Rightarrow> ti_int \<Rightarrow> ti_int \<Rightarrow> ti_int \<Rightarrow> string \<times> int" where
  "test__modti3 modti3_impl a b expected =
    (let x = modti3_impl a b
     in (if x \<noteq> expected then diagnostic a b x expected else [],
         if x \<noteq> expected then 1 else 0))"

text \<open>
  The calls of \<^verbatim>\<open>main\<close>, lines 51 to 89, in order: dividend, divisor, expected
  remainder. The literal \<^verbatim>\<open>0x8000000000000000LL\<close> as a \<^verbatim>\<open>ti_int\<close> argument is the
  positive \<open>2 ^ 63\<close>; as the \<^verbatim>\<open>di_int\<close> argument of \<^verbatim>\<open>make_ti\<close> it is the high half.
\<close>

definition modti3_cases :: "(ti_int \<times> ti_int \<times> ti_int) list" where
  "modti3_cases =
    [(0, 1, 0),
     (0, - 1, 0),
     (5, 3, 2),
     (5, - 3, 2),
     (- 5, 3, - 2),
     (- 5, - 3, - 2),
     (0x8000000000000000, 1, 0x0),
     (0x8000000000000000, - 1, 0x0),
     (0x8000000000000000, 2, 0x0),
     (0x8000000000000000, - 2, 0x0),
     (0x8000000000000000, 3, 2),
     (0x8000000000000000, - 3, 2),
     (make_ti 0x8000000000000000 0, 1, 0x0),
     (make_ti 0x8000000000000000 0, - 1, 0x0),
     (make_ti 0x8000000000000000 0, 2, 0x0),
     (make_ti 0x8000000000000000 0, - 2, 0x0),
     (make_ti 0x8000000000000000 0, 3, - 2),
     (make_ti 0x8000000000000000 0, - 3, - 2)]"

text \<open>
  The chain of \<^verbatim>\<open>if (test__modti3(...)) return 1;\<close> statements: each case runs
  after the ones before it returned zero, a nonzero result returns 1 at once, and the
  end of the chain reaches \<^verbatim>\<open>return 0\<close> on line 92.
\<close>

fun run_cases :: "(ti_int \<Rightarrow> ti_int \<Rightarrow> ti_int) \<Rightarrow> (ti_int \<times> ti_int \<times> ti_int) list \<Rightarrow> string \<times> int" where
  "run_cases modti3_impl [] = ([], 0)"
| "run_cases modti3_impl ((a, b, expected) # rest) =
    (let (out, failed) = test__modti3 modti3_impl a b expected
     in if failed \<noteq> 0 then (out, 1)
        else (let (out', code) = run_cases modti3_impl rest in (out @ out', code)))"

text \<open>
  \<^verbatim>\<open>main\<close>, lines 48 to 93. \<open>x86_64\<close> is the preprocessor condition
  \<^verbatim>\<open>__x86_64\<close> of lines 14 and 50; without it the body is \<^verbatim>\<open>return 0\<close> alone.
\<close>

definition main :: "bool \<Rightarrow> (ti_int \<Rightarrow> ti_int \<Rightarrow> ti_int) \<Rightarrow> string \<times> int" where
  "main x86_64 modti3_impl = (if x86_64 then run_cases modti3_impl modti3_cases else ([], 0))"

section \<open>The sign mask and the conditional negation\<close>

lemma signed_drop_bit_31:
  "signed_drop_bit 31 (x :: 32 word) = (if bit x 31 then - 1 else 0)"
proof (rule bit_word_eqI)
  fix n
  assume "n < LENGTH(32)"
  then show "bit (signed_drop_bit 31 x) n \<longleftrightarrow> bit (if bit x 31 then - 1 else 0 :: 32 word) n"
    by (cases "n = 0") (simp_all add: bit_signed_drop_bit_iff)
qed

lemma sign_mask_eq: "sign_mask x = (if sint x < 0 then - 1 else 0)"
proof -
  have "sign_mask x = signed_drop_bit 31 x"
    by (simp add: sign_mask_def bits_in_word_m1_def sizeof_si_int_def CHAR_BIT_def)
  moreover have "bit x 31 \<longleftrightarrow> sint x < 0"
    using bit_last_iff [of x] by simp
  ultimately show ?thesis
    by (simp add: signed_drop_bit_31)
qed

lemma negate_if_0: "negate_if x 0 = x"
  by (simp add: negate_if_def)

lemma negate_if_m1: "negate_if x (- 1) = - x"
proof -
  have "negate_if x (- 1) = NOT x + 1"
    by (simp add: negate_if_def)
  then show ?thesis
    by (simp only: minus_eq_not_plus_1 [of x])
qed

lemma sint_bounds32: "- 2147483648 \<le> sint (x :: 32 word) \<and> sint x < 2147483648"
  using sint_ge [of x] sint_lt [of x] by simp

lemma uint_sint32: "uint (x :: 32 word) = sint x mod 4294967296"
  by (simp add: uint_sint [of x] take_bit_eq_mod)

lemma uint_abs: "uint (negate_if a (sign_mask a)) = \<bar>sint a\<bar>"
proof (cases "sint a < 0")
  case True
  have "- a = word_of_int (- sint a)" by simp
  then have "uint (- a) = (- sint a) mod 2 ^ 32"
    by (simp only: uint_word_of_int) simp
  with True sint_bounds32 [of a] show ?thesis
    by (simp add: sign_mask_eq negate_if_m1)
next
  case False
  with sint_bounds32 [of a] have "uint a = sint a"
    by (simp add: uint_sint32)
  with False show ?thesis
    by (simp add: sign_mask_eq negate_if_0)
qed

lemma abs_ne0: "b \<noteq> 0 \<Longrightarrow> negate_if b (sign_mask b) \<noteq> 0"
  by (simp add: sign_mask_eq negate_if_0 negate_if_m1)

lemma udiv_abs:
  assumes "udivsi3_correct udiv" "b \<noteq> 0"
  shows "udiv (negate_if a (sign_mask a)) (negate_if b (sign_mask b)) = word_of_int (\<bar>sint a\<bar> div \<bar>sint b\<bar>)"
proof -
  let ?a = "negate_if a (sign_mask a)" and ?b = "negate_if b (sign_mask b)"
  have "udiv ?a ?b = ?a div ?b"
    using assms abs_ne0 [of b] by (simp add: udivsi3_correct_def)
  also have "\<dots> = word_of_int (uint ?a div uint ?b)"
    by (simp add: word_div_def)
  finally show ?thesis
    by (simp only: uint_abs)
qed

lemma sign_xor: "sign_mask a XOR sign_mask b = (if (sint a < 0) = (sint b < 0) then 0 else - 1)"
  by (simp add: sign_mask_eq)

lemma divsi3_eq:
  assumes "udivsi3_correct udiv" "b \<noteq> 0"
  shows "divsi3 udiv a b = word_of_int (truncating_quotient (sint a) (sint b))"
  using udiv_abs [OF assms, of a]
  by (simp add: divsi3_def Let_def sign_xor negate_if_0 negate_if_m1 truncating_quotient_def)


lemma SI_MIN_sint: "sint SI_MIN = - 2147483648"
  by (simp add: SI_MIN_def)

lemma sint_eq_SI_MIN: "sint a = - 2147483648 \<longleftrightarrow> a = SI_MIN"
proof
  assume "sint a = - 2147483648"
  then have "word_of_int (sint a) = (word_of_int (- 2147483648) :: 32 word)" by simp
  then show "a = SI_MIN" by (simp add: SI_MIN_def)
qed (simp add: SI_MIN_sint)

lemma sint_eq_m1: "sint (b :: 32 word) = - 1 \<longleftrightarrow> b = - 1"
proof
  assume "sint b = - 1"
  then have "word_of_int (sint b) = (word_of_int (- 1) :: 32 word)" by simp
  then show "b = - 1" by simp
qed simp

lemma sint_eq_0: "sint (b :: 32 word) = 0 \<longleftrightarrow> b = 0"
  by (simp add: signed_eq_0_iff)

lemma sint_word_of_int32:
  "- 2147483648 \<le> k \<Longrightarrow> k < 2147483648 \<Longrightarrow> sint (word_of_int k :: 32 word) = k"
  by (simp add: sint_sbintrunc' signed_take_bit_int_eq_self)

lemma abs_div_abs_nonneg: "0 \<le> \<bar>x :: int\<bar> div \<bar>y\<bar>"
  by (simp add: div_int_pos_iff)

lemma tq_abs_le: "\<bar>truncating_quotient x y\<bar> \<le> \<bar>x\<bar>"
proof -
  have "\<bar>x\<bar> div \<bar>y\<bar> \<le> \<bar>x\<bar>"
  proof (cases "y = 0")
    case False
    then have "\<bar>x\<bar> div \<bar>y\<bar> \<le> \<bar>x\<bar> div 1"
      by (intro zdiv_mono2) simp_all
    then show ?thesis by simp
  qed simp
  moreover note abs_div_abs_nonneg [of x y]
  ultimately show ?thesis
    by (simp add: truncating_quotient_def)
qed

lemma tq_range:
  fixes a b :: si_int
  assumes "\<not> (a = SI_MIN \<and> b = - 1)"
  shows "- 2147483648 \<le> truncating_quotient (sint a) (sint b) \<and> truncating_quotient (sint a) (sint b) < 2147483648"
proof (cases "a = SI_MIN")
  case False
  then have "\<bar>sint a\<bar> < 2147483648"
    using sint_bounds32 [of a] sint_eq_SI_MIN [of a] by linarith
  with tq_abs_le [of "sint a" "sint b"] show ?thesis by linarith
next
  case True
  with assms have nb: "sint b \<noteq> - 1" using sint_eq_m1 [of b] by blast
  show ?thesis
  proof (cases "sint b < 0")
    case False
    then show ?thesis
      using tq_abs_le [of "sint a" "sint b"] abs_div_abs_nonneg [of "sint a" "sint b"] True
      by (simp add: SI_MIN_sint truncating_quotient_def)
  next
    case neg: True
    with nb have "2 \<le> \<bar>sint b\<bar>" by simp
    then have "2147483648 div \<bar>sint b\<bar> \<le> 2147483648 div 2"
      by (intro zdiv_mono2) simp_all
    with neg True abs_div_abs_nonneg [of "sint a" "sint b"] show ?thesis
      by (simp add: SI_MIN_sint truncating_quotient_def)
  qed
qed

lemma trem_eq:
  "x - truncating_quotient x y * y = (if x < 0 then - (\<bar>x\<bar> mod \<bar>y\<bar>) else \<bar>x\<bar> mod \<bar>y\<bar>)"
proof -
  have m: "p mod q = p - q * (p div q)" for p q :: int
    by (simp add: minus_mult_div_eq_mod)
  show ?thesis
    by (simp add: truncating_quotient_def m algebra_simps)
qed

lemma udivsi3_correct_div: "udivsi3_correct (div)"
  by (simp add: udivsi3_correct_def)

section \<open>Truncating division on the integers and on words\<close>

lemma sint_uminus32: "a \<noteq> SI_MIN \<Longrightarrow> sint (- a) = - sint a"
proof -
  assume "a \<noteq> SI_MIN"
  then have "- 2147483648 < sint a"
    using sint_bounds32 [of a] sint_eq_SI_MIN [of a] by linarith
  moreover have "- a = word_of_int (- sint a)" by simp
  ultimately show ?thesis
    using sint_bounds32 [of a] sint_word_of_int32 [of "- sint a"] by simp
qed

lemma tq_uminus_left: "truncating_quotient (- x) y = - truncating_quotient x y"
  by (cases "x = 0") (auto simp add: truncating_quotient_def)

lemma tq_uminus_right: "y \<noteq> 0 \<Longrightarrow> truncating_quotient x (- y) = - truncating_quotient x y"
  by (auto simp add: truncating_quotient_def)

lemma tq_small: "\<bar>x\<bar> < \<bar>y\<bar> \<Longrightarrow> truncating_quotient x y = 0"
  by (simp add: truncating_quotient_def div_pos_pos_trivial)

lemma uminus_SI_MIN: "- SI_MIN = SI_MIN"
  by (simp add: SI_MIN_def)

lemma divsi3_uminus_left:
  assumes "udivsi3_correct udivsi3" "b \<noteq> 0" "a \<noteq> SI_MIN"
  shows "divsi3 udivsi3 (- a) b = - divsi3 udivsi3 a b"
  by (simp add: divsi3_eq [OF assms(1,2)] sint_uminus32 [OF assms(3)] tq_uminus_left)

lemma divsi3_uminus_right:
  assumes "udivsi3_correct udivsi3" "b \<noteq> 0" "a \<noteq> SI_MIN"
  shows "divsi3 udivsi3 a (- b) = - divsi3 udivsi3 a b"
proof (cases "b = SI_MIN")
  case True
  have "\<bar>sint a\<bar> < \<bar>sint b\<bar>"
    using assms(3) sint_bounds32 [of a] sint_eq_SI_MIN [of a]
    unfolding True SI_MIN_sint by linarith
  then have "divsi3 udivsi3 a b = 0"
    by (simp add: divsi3_eq [OF assms(1,2)] tq_small)
  then show ?thesis
    by (simp add: True uminus_SI_MIN)
next
  case False
  have nz: "- b \<noteq> 0" and sb: "sint b \<noteq> 0"
    using assms(2) by (simp_all add: sint_eq_0)
  show ?thesis
    by (simp add: divsi3_eq [OF assms(1) nz] divsi3_eq [OF assms(1,2)]
        sint_uminus32 [OF False] tq_uminus_right [OF sb])
qed

lemma rem_abs_less: "y \<noteq> 0 \<Longrightarrow> \<bar>x\<bar> mod \<bar>y\<bar> < \<bar>y :: int\<bar>"
  by simp

lemma rem_nonneg: "0 \<le> \<bar>x\<bar> mod \<bar>y :: int\<bar>"
  by (cases "y = 0") simp_all

lemma sint_rem:
  assumes "udivsi3_correct udivsi3" "b \<noteq> 0"
  shows "sint (a - divsi3 udivsi3 a b * b) =
    (if sint a < 0 then - (\<bar>sint a\<bar> mod \<bar>sint b\<bar>) else \<bar>sint a\<bar> mod \<bar>sint b\<bar>)"
proof -
  let ?r = "sint a - truncating_quotient (sint a) (sint b) * sint b"
  have sb: "sint b \<noteq> 0"
    using assms(2) by (simp add: sint_eq_0)
  have "a - divsi3 udivsi3 a b * b = word_of_int (sint a) - word_of_int (truncating_quotient (sint a) (sint b)) * word_of_int (sint b)"
    by (simp add: divsi3_eq [OF assms])
  also have "\<dots> = word_of_int ?r"
    by (simp only: wi_hom_syms)
  finally have w: "a - divsi3 udivsi3 a b * b = word_of_int ?r" .
  have r: "?r = (if sint a < 0 then - (\<bar>sint a\<bar> mod \<bar>sint b\<bar>) else \<bar>sint a\<bar> mod \<bar>sint b\<bar>)"
    by (rule trem_eq)
  have "\<bar>?r\<bar> < \<bar>sint b\<bar>"
    using rem_abs_less [OF sb, of "sint a"] rem_nonneg [of "sint a" "sint b"] by (simp only: r split: if_splits) linarith+
  then have "- 2147483648 \<le> ?r \<and> ?r < 2147483648"
    using sint_bounds32 [of b] by linarith
  then have "sint (word_of_int ?r :: si_int) = ?r"
    by (simp only: sint_word_of_int32)
  then show ?thesis
    by (simp only: w r)
qed


lemma tq_neg_iff:
  assumes "y \<noteq> 0"
  shows "truncating_quotient x y < 0 \<longleftrightarrow> (x < 0) \<noteq> (y < 0) \<and> \<bar>y\<bar> \<le> \<bar>x\<bar>"
proof -
  have "0 < \<bar>y\<bar>"
    using assms by simp
  then have "0 < \<bar>x\<bar> div \<bar>y\<bar> \<longleftrightarrow> \<bar>y\<bar> \<le> \<bar>x\<bar>"
    by (rule pos_imp_zdiv_pos_iff)
  with abs_div_abs_nonneg [of x y] show ?thesis
    unfolding truncating_quotient_def by (cases "(x < 0) = (y < 0)") simp_all
qed

lemma divsi3_MIN_m1:
  assumes "udivsi3_correct udivsi3"
  shows "divsi3 udivsi3 SI_MIN (- 1) = SI_MIN"
proof -
  have "divsi3 udivsi3 SI_MIN (- 1) =
      word_of_int (truncating_quotient (sint SI_MIN) (sint (- 1 :: si_int)))"
    using assms by (rule divsi3_eq) simp
  then show ?thesis
    by (simp add: SI_MIN_def truncating_quotient_def)
qed

lemma abs_signed_less: "0 \<le> m \<Longrightarrow> m < c \<Longrightarrow> \<bar>if P then - m else m\<bar> < (c :: int)"
  by simp

lemma sgn_signed: "0 < m \<Longrightarrow> x \<noteq> 0 \<Longrightarrow> sgn (if x < 0 then - m else m) = sgn (x :: int)"
  by simp

lemma rem_sign:
  assumes "udivsi3_correct udivsi3" and "b \<noteq> 0"
  shows "a - divsi3 udivsi3 a b * b = 0 \<or>
      sgn (sint (a - divsi3 udivsi3 a b * b)) = sgn (sint a)"
    and "\<bar>sint (a - divsi3 udivsi3 a b * b)\<bar> < \<bar>sint b\<bar>"
proof -
  let ?m = "\<bar>sint a\<bar> mod \<bar>sint b\<bar>"
  let ?r = "a - divsi3 udivsi3 a b * b"
  have sb: "sint b \<noteq> 0"
    using assms(2) by (simp add: sint_eq_0)
  have s: "sint ?r = (if sint a < 0 then - ?m else ?m)"
    using assms by (rule sint_rem)
  have m: "0 \<le> ?m" "?m < \<bar>sint b\<bar>"
    using rem_nonneg [of "sint a" "sint b"] rem_abs_less [OF sb, of "sint a"] by blast+
  from m show "\<bar>sint ?r\<bar> < \<bar>sint b\<bar>"
    unfolding s by (rule abs_signed_less)
  show "?r = 0 \<or> sgn (sint ?r) = sgn (sint a)"
  proof (cases "?m = 0")
    case True
    have "sint ?r = 0"
      by (simp only: s True, simp)
    then show ?thesis
      by (simp add: sint_eq_0)
  next
    case False
    with m(1) have pos: "0 < ?m"
      by linarith
    from pos have "sint a \<noteq> 0"
      by (cases "sint a = 0") simp_all
    with pos have "sgn (sint ?r) = sgn (sint a)"
      unfolding s by (rule sgn_signed)
    then show ?thesis ..
  qed
qed

section \<open>The quotient of divsi3\<close>

text \<open>
  C1: if \<^verbatim>\<open>__udivsi3\<close> returns the truncated unsigned quotient for every nonzero
  divisor, then for every \<open>a\<close> and every nonzero \<open>b\<close> the result of \<^verbatim>\<open>__divsi3\<close> is the
  truncating signed quotient of \<open>a\<close> by \<open>b\<close> taken modulo \<open>2 ^ 32\<close>. Outside the one
  overflowing pair the signed reading of the result is that quotient exactly, and
  the overflowing pair, the most negative value divided by \<open>- 1\<close>, wraps to the most
  negative value.
\<close>

theorem divsi3_truncating:
  assumes "udivsi3_correct udivsi3" and "b \<noteq> 0"
  shows "divsi3 udivsi3 a b = word_of_int (truncating_quotient (sint a) (sint b)) \<and>
    (\<not> (a = SI_MIN \<and> b = - 1) \<longrightarrow>
      sint (divsi3 udivsi3 a b) = truncating_quotient (sint a) (sint b)) \<and>
    divsi3 udivsi3 SI_MIN (- 1) = SI_MIN"
proof (intro conjI impI)
  show eq: "divsi3 udivsi3 a b = word_of_int (truncating_quotient (sint a) (sint b))"
    using assms by (rule divsi3_eq)
  show "sint (divsi3 udivsi3 a b) = truncating_quotient (sint a) (sint b)"
    if "\<not> (a = SI_MIN \<and> b = - 1)"
    using tq_range [OF that] by (simp add: eq sint_word_of_int32)
  show "divsi3 udivsi3 SI_MIN (- 1) = SI_MIN"
    using assms(1) by (rule divsi3_MIN_m1)
qed

theorem divsi3_truncating_witness:
  "udivsi3_correct (div) \<and> (2 :: si_int) \<noteq> 0 \<and>
   \<not> ((- 7 :: si_int) = SI_MIN \<and> (2 :: si_int) = - 1) \<and>
   truncating_quotient (sint (- 7 :: si_int)) (sint (2 :: si_int)) = - 3 \<and>
   divsi3 (div) (- 7) 2 = - 3 \<and>
   sint (divsi3 (div) (- 7) 2) = - 3 \<and>
   divsi3 (div) SI_MIN (- 1) = SI_MIN"
proof -
  have nz: "(2 :: si_int) \<noteq> 0"
    by simp
  have tq: "truncating_quotient (- 7) 2 = - 3"
    by (simp add: truncating_quotient_def)
  have ne: "\<not> ((- 7 :: si_int) = SI_MIN \<and> (2 :: si_int) = - 1)"
    by (simp add: SI_MIN_def)
  from divsi3_truncating [OF udivsi3_correct_div nz, of "- 7"] ne
  show ?thesis
    by (simp add: tq udivsi3_correct_div)
qed

text \<open>
  C6: for every \<open>x\<close> other than the most negative value, \<^verbatim>\<open>(x ^ s) - s\<close> with
  \<^verbatim>\<open>s = x >> 31\<close> is the absolute value of \<open>x\<close>; at the most negative value it wraps
  and returns that value again. The unsigned reading of the result is the magnitude
  of \<open>x\<close> in both cases.
\<close>

theorem negate_if_absolute_value:
  "(x \<noteq> SI_MIN \<longrightarrow> sint (negate_if x (sign_mask x)) = \<bar>sint x\<bar>) \<and>
   negate_if SI_MIN (sign_mask SI_MIN) = SI_MIN \<and>
   uint (negate_if x (sign_mask x)) = \<bar>sint x\<bar>"
proof (intro conjI impI)
  show u: "uint (negate_if x (sign_mask x)) = \<bar>sint x\<bar>"
    by (rule uint_abs)
  show "negate_if SI_MIN (sign_mask SI_MIN) = SI_MIN"
    by (simp add: sign_mask_eq negate_if_m1 SI_MIN_sint) (simp add: SI_MIN_def)
  show "sint (negate_if x (sign_mask x)) = \<bar>sint x\<bar>" if "x \<noteq> SI_MIN"
  proof -
    have "\<bar>sint x\<bar> < 2147483648"
      using that sint_bounds32 [of x] sint_eq_SI_MIN [of x] by linarith
    moreover have "negate_if x (sign_mask x) = word_of_int \<bar>sint x\<bar>"
      using u by (metis word_of_int_uint)
    ultimately show ?thesis
      by (simp add: sint_word_of_int32)
  qed
qed

theorem negate_if_absolute_value_witness:
  "(- 5 :: si_int) \<noteq> SI_MIN \<and> sint (negate_if (- 5) (sign_mask (- 5))) = 5 \<and>
   negate_if (- 5) (sign_mask (- 5)) = 5"
proof -
  have ne: "(- 5 :: si_int) \<noteq> SI_MIN"
    by (simp add: SI_MIN_def)
  have "negate_if (- 5) (sign_mask (- 5)) = 5"
    by (simp add: sign_mask_eq negate_if_m1)
  with negate_if_absolute_value [of "- 5"] ne show ?thesis
    by simp
qed

text \<open>
  C10: for \<open>a\<close> not negative and \<open>b\<close> positive both sign masks are zero, and
  \<^verbatim>\<open>__divsi3(a, b)\<close> is \<^verbatim>\<open>__udivsi3(a, b)\<close>, whatever \<^verbatim>\<open>__udivsi3\<close> computes.
\<close>

theorem divsi3_nonneg:
  assumes "0 \<le> sint a" and "0 < sint b"
  shows "divsi3 udivsi3 a b = udivsi3 a b"
  using assms by (simp add: divsi3_def Let_def sign_mask_eq negate_if_0)

theorem divsi3_nonneg_witness:
  "0 \<le> sint (7 :: si_int) \<and> 0 < sint (2 :: si_int) \<and>
   divsi3 (\<lambda>n d. n + d) 7 2 = 9"
proof -
  have a: "0 \<le> sint (7 :: si_int)" and b: "0 < sint (2 :: si_int)"
    by simp_all
  from divsi3_nonneg [OF a b, of "\<lambda>n d. n + d"] a b show ?thesis
    by simp
qed

section \<open>Signs, remainder and symmetry\<close>

text \<open>
  C4, as the code has it: with \<^verbatim>\<open>__udivsi3\<close> correct and \<open>b\<close> nonzero, the quotient
  \<^verbatim>\<open>__divsi3(a, b)\<close> is negative exactly when one operand is negative, the other is
  not, and the magnitude of \<open>a\<close> is at least that of \<open>b\<close> (so that the quotient is
  not zero), or when \<open>a\<close> is the most negative value and \<open>b\<close> is \<open>- 1\<close> (the quotient
  wraps). The remainder \<^verbatim>\<open>a - __divsi3(a, b) * b\<close> is zero or has the sign of \<open>a\<close>.
\<close>

theorem divsi3_sign_rule:
  assumes "udivsi3_correct udivsi3" and "b \<noteq> 0"
  shows "(sint (divsi3 udivsi3 a b) < 0 \<longleftrightarrow>
      (sint a < 0) \<noteq> (sint b < 0) \<and> \<bar>sint b\<bar> \<le> \<bar>sint a\<bar> \<or> a = SI_MIN \<and> b = - 1) \<and>
    (a - divsi3 udivsi3 a b * b = 0 \<or>
      sgn (sint (a - divsi3 udivsi3 a b * b)) = sgn (sint a))"
proof
  have sb: "sint b \<noteq> 0"
    using assms(2) by (simp add: sint_eq_0)
  show "sint (divsi3 udivsi3 a b) < 0 \<longleftrightarrow>
      (sint a < 0) \<noteq> (sint b < 0) \<and> \<bar>sint b\<bar> \<le> \<bar>sint a\<bar> \<or> a = SI_MIN \<and> b = - 1"
  proof (cases "a = SI_MIN \<and> b = - 1")
    case True
    then have "divsi3 udivsi3 a b = SI_MIN"
      using divsi3_MIN_m1 [OF assms(1)] by simp
    with True show ?thesis
      by (simp add: SI_MIN_sint)
  next
    case False
    have q: "sint (divsi3 udivsi3 a b) = truncating_quotient (sint a) (sint b)"
      using tq_range [OF False] by (simp add: divsi3_eq [OF assms] sint_word_of_int32)
    show ?thesis
      unfolding q using False tq_neg_iff [OF sb, of "sint a"] by blast
  qed
  show "a - divsi3 udivsi3 a b * b = 0 \<or>
      sgn (sint (a - divsi3 udivsi3 a b * b)) = sgn (sint a)"
    using assms by (rule rem_sign)
qed

theorem divsi3_sign_rule_witness:
  "udivsi3_correct (div) \<and> (- 3 :: si_int) \<noteq> 0 \<and>
   sint (divsi3 (div) 7 (- 3)) < 0 \<and>
   (sint (7 :: si_int) < 0) \<noteq> (sint (- 3 :: si_int) < 0) \<and>
   \<bar>sint (- 3 :: si_int)\<bar> \<le> \<bar>sint (7 :: si_int)\<bar> \<and>
   7 - divsi3 (div) 7 (- 3) * (- 3) \<noteq> 0 \<and>
   sgn (sint (7 - divsi3 (div) 7 (- 3) * (- 3))) = sgn (sint (7 :: si_int))"
proof -
  have nz: "(- 3 :: si_int) \<noteq> 0"
    by simp
  have q: "divsi3 (div) 7 (- 3) = - 2"
    by (simp add: divsi3_def sign_mask_eq negate_if_0 negate_if_m1)
  from divsi3_sign_rule [OF udivsi3_correct_div nz, of 7] show ?thesis
    by (simp add: q udivsi3_correct_div)
qed

text \<open>
  C4 as the claim words it fails where the quotient is zero: \<open>1\<close> divided by \<open>- 2\<close>
  has exactly one negative operand, and the quotient \<open>0\<close> is not negative.
\<close>

theorem divsi3_sign_rule_counterexample:
  "udivsi3_correct (div) \<and> (- 2 :: si_int) \<noteq> 0 \<and>
   \<not> (sint (divsi3 (div) 1 (- 2)) < 0 \<longleftrightarrow> (sint (1 :: si_int) < 0) \<noteq> (sint (- 2 :: si_int) < 0))"
proof -
  have "divsi3 (div) 1 (- 2) = 0"
    by (simp add: divsi3_def sign_mask_eq negate_if_0 negate_if_m1)
  then show ?thesis
    by (simp add: udivsi3_correct_div)
qed

text \<open>
  C5: with \<^verbatim>\<open>__udivsi3\<close> correct and \<open>b\<close> nonzero, quotient times divisor plus
  \<open>modulo_native\<close> is the dividend (modulo \<open>2 ^ 32\<close>), \<open>modulo_native\<close> is zero or has
  the sign of the dividend, and its magnitude is below the magnitude of the divisor.
\<close>

theorem modulo_native_identity:
  assumes "udivsi3_correct udivsi3" and "b \<noteq> 0"
  shows "divsi3 udivsi3 a b * b + modulo_native udivsi3 a b = a \<and>
    (modulo_native udivsi3 a b = 0 \<or> sgn (sint (modulo_native udivsi3 a b)) = sgn (sint a)) \<and>
    \<bar>sint (modulo_native udivsi3 a b)\<bar> < \<bar>sint b\<bar>"
  unfolding modulo_native_def
  using rem_sign [OF assms, of a] by simp

theorem modulo_native_identity_witness:
  "udivsi3_correct (div) \<and> (3 :: si_int) \<noteq> 0 \<and>
   modulo_native (div) (- 7) 3 = - 1 \<and>
   divsi3 (div) (- 7) 3 * 3 + modulo_native (div) (- 7) 3 = - 7 \<and>
   sgn (sint (modulo_native (div) (- 7) 3)) = sgn (sint (- 7 :: si_int)) \<and>
   \<bar>sint (modulo_native (div) (- 7) 3)\<bar> < \<bar>sint (3 :: si_int)\<bar>"
proof -
  have nz: "(3 :: si_int) \<noteq> 0"
    by simp
  have q: "divsi3 (div) (- 7) 3 = - 2"
    by (simp add: divsi3_def sign_mask_eq negate_if_0 negate_if_m1)
  have m: "modulo_native (div) (- 7) 3 = - 1"
    by (simp add: modulo_native_def q)
  from modulo_native_identity [OF udivsi3_correct_div nz, of "- 7"] show ?thesis
    by (simp add: m q udivsi3_correct_div)
qed

text \<open>
  C7: with \<^verbatim>\<open>__udivsi3\<close> correct, \<open>b\<close> nonzero and \<open>a\<close> not the most negative value,
  \<^verbatim>\<open>__divsi3(a, b)\<close>, \<^verbatim>\<open>-__divsi3(-a, b)\<close>, \<^verbatim>\<open>-__divsi3(a, -b)\<close> and
  \<^verbatim>\<open>__divsi3(-a, -b)\<close> are equal, negation being the wrapping one of the words.
\<close>

theorem divsi3_negation_symmetry:
  assumes "udivsi3_correct udivsi3" and "b \<noteq> 0" and "a \<noteq> SI_MIN"
  shows "divsi3 udivsi3 a b = - divsi3 udivsi3 (- a) b \<and>
    - divsi3 udivsi3 (- a) b = - divsi3 udivsi3 a (- b) \<and>
    - divsi3 udivsi3 a (- b) = divsi3 udivsi3 (- a) (- b)"
proof -
  have nz: "- b \<noteq> 0"
    using assms(2) by simp
  have l: "divsi3 udivsi3 (- a) b = - divsi3 udivsi3 a b"
    using assms by (rule divsi3_uminus_left)
  have r: "divsi3 udivsi3 a (- b) = - divsi3 udivsi3 a b"
    using assms by (rule divsi3_uminus_right)
  have lr: "divsi3 udivsi3 (- a) (- b) = - divsi3 udivsi3 a (- b)"
    using assms(1) nz assms(3) by (rule divsi3_uminus_left)
  show ?thesis
    by (simp add: l r lr)
qed

theorem divsi3_negation_symmetry_witness:
  "udivsi3_correct (div) \<and> (2 :: si_int) \<noteq> 0 \<and> (7 :: si_int) \<noteq> SI_MIN \<and>
   divsi3 (div) 7 2 = 3 \<and>
   - divsi3 (div) (- 7) 2 = 3 \<and>
   - divsi3 (div) 7 (- 2) = 3 \<and>
   divsi3 (div) (- 7) (- 2) = 3"
proof -
  have nz: "(2 :: si_int) \<noteq> 0"
    by simp
  have ne: "(7 :: si_int) \<noteq> SI_MIN"
    by (simp add: SI_MIN_def)
  have q: "divsi3 (div) 7 2 = 3" "divsi3 (div) (- 7) 2 = - 3"
    "divsi3 (div) 7 (- 2) = - 3" "divsi3 (div) (- 7) (- 2) = 3"
    by (simp_all add: divsi3_def sign_mask_eq negate_if_0 negate_if_m1)
  from divsi3_negation_symmetry [OF udivsi3_correct_div nz ne] show ?thesis
    unfolding q using ne udivsi3_correct_div by simp
qed

section \<open>The test harness\<close>

lemma test__modti3_eq:
  "test__modti3 f a b e = (if f a b = e then ([], 0) else (diagnostic a b (f a b) e, 1))"
  by (simp add: test__modti3_def Let_def)

lemma run_cases_all_pass:
  "\<forall>(a, b, e) \<in> set cs. f a b = e \<Longrightarrow> run_cases f cs = ([], 0)"
proof (induction cs)
  case Nil
  show ?case by simp
next
  case (Cons c cs)
  obtain a b e where c: "c = (a, b, e)"
    by (cases c)
  from Cons.prems have "f a b = e" and "\<forall>(a, b, e) \<in> set cs. f a b = e"
    by (simp_all add: c)
  with Cons.IH show ?case
    by (simp add: c test__modti3_eq)
qed

lemma run_cases_first_failure:
  assumes "\<forall>(a', b', e') \<in> set pre. f a' b' = e'" and "f a b \<noteq> e"
  shows "run_cases f (pre @ (a, b, e) # post) = (diagnostic a b (f a b) e, 1)"
  using assms(1)
proof (induction pre)
  case Nil
  from assms(2) show ?case
    by (simp add: test__modti3_eq)
next
  case (Cons c pre)
  obtain a' b' e' where c: "c = (a', b', e')"
    by (cases c)
  from Cons.prems have "f a' b' = e'" and "\<forall>(a', b', e') \<in> set pre. f a' b' = e'"
    by (simp_all add: c)
  with Cons.IH show ?case
    by (simp add: c test__modti3_eq)
qed

lemma nibble_less: "unat (w AND (0xF :: 64 word)) < 16"
proof -
  have "w AND 0xF \<le> 0xF"
    by (rule word_and_le1)
  then have "unat (w AND 0xF) \<le> unat (0xF :: 64 word)"
    by (simp only: word_le_nat_alt)
  then show ?thesis
    by simp
qed

lemma hex_digit_not_newline: "d < 16 \<Longrightarrow> hex_digit d \<noteq> newline"
proof -
  assume "d < 16"
  then have "hex_digit d \<in> set ''0123456789ABCDEF''"
    unfolding hex_digit_def by (intro nth_mem) simp
  moreover have "newline \<notin> set ''0123456789ABCDEF''"
    by (simp add: newline_def)
  ultimately show ?thesis
    by metis
qed

lemma newline_notin_hex16: "newline \<notin> set (hex16 w)"
proof
  assume "newline \<in> set (hex16 w)"
  then obtain i where "newline = hex_digit (unat (drop_bit (4 * i) w AND 0xF))"
    by (auto simp add: hex16_def)
  with hex_digit_not_newline [OF nibble_less, of "drop_bit (4 * i) w"] show False
    by simp
qed

lemma count_list_notin: "x \<notin> set xs \<Longrightarrow> count_list xs x = 0"
  by (induction xs) auto

lemma count_list_hex16: "count_list (hex16 w) newline = 0"
  using newline_notin_hex16 by (rule count_list_notin)

lemma diagnostic_one_line:
  "count_list (diagnostic a b x e) newline = 1" "last (diagnostic a b x e) = newline"
  by (simp_all add: diagnostic_def count_list_hex16 [unfolded newline_def] newline_def)

section \<open>What the diagnostic renders\<close>

lemma hex_digit_value_all: "list_all (\<lambda>d. hex_digit_value (hex_digit d) = d) [0..<16]"
  by (simp add: upt_rec hex_digit_def hex_digit_value_def)

lemma hex_digit_value_hex_digit: "d < 16 \<Longrightarrow> hex_digit_value (hex_digit d) = d"
  using hex_digit_value_all by (simp add: list_all_iff)

lemma hex_digit_in: "d < 16 \<Longrightarrow> hex_digit d \<in> set ''0123456789ABCDEF''"
  unfolding hex_digit_def by (intro nth_mem) simp

lemma nibble_eq: "unat (drop_bit (4 * i) w AND (0xF :: 64 word)) = unat w div 16 ^ i mod 16"
proof -
  have "(0xF :: 64 word) = mask 4"
    by (simp add: mask_eq_exp_minus_1)
  then have "drop_bit (4 * i) w AND (0xF :: 64 word) = take_bit 4 (drop_bit (4 * i) w)"
    by (simp only: take_bit_eq_mask)
  then have "unat (drop_bit (4 * i) w AND (0xF :: 64 word)) = take_bit 4 (drop_bit (4 * i) (unat w))"
    by (simp only: unsigned_take_bit_eq unat_drop_bit_eq)
  also have "\<dots> = unat w div 16 ^ i mod 16"
    by (simp add: take_bit_eq_mod drop_bit_eq_div power_mult)
  finally show ?thesis .
qed

lemma foldl_hex_digits:
  "foldl (\<lambda>acc c. 16 * acc + hex_digit_value c) acc
      (map (\<lambda>i. hex_digit (N div 16 ^ i mod 16)) (rev [0..<n])) = acc * 16 ^ n + N mod 16 ^ n"
proof (induction n arbitrary: acc)
  case 0
  show ?case by simp
next
  case (Suc n)
  let ?g = "\<lambda>acc c. 16 * acc + hex_digit_value c"
  let ?ds = "\<lambda>n. map (\<lambda>i. hex_digit (N div 16 ^ i mod 16)) (rev [0..<n])"
  have m: "N mod (16 ^ n * 16) = 16 ^ n * (N div 16 ^ n mod 16) + N mod 16 ^ n"
    by (rule mod_mult2_eq)
  have "foldl ?g acc (?ds (Suc n)) = foldl ?g (16 * acc + N div 16 ^ n mod 16) (?ds n)"
    by (simp add: hex_digit_value_hex_digit)
  also have "\<dots> = (16 * acc + N div 16 ^ n mod 16) * 16 ^ n + N mod 16 ^ n"
    by (rule Suc.IH)
  also have "\<dots> = acc * 16 ^ Suc n + N mod 16 ^ Suc n"
    using m by (simp add: algebra_simps)
  finally show ?case .
qed

lemma hex_value_hex16: "hex_value (hex16 w) = unat w"
proof -
  have "unat w < 16 ^ 16"
    using unsigned_less [of w, where ?'a = nat] by simp
  then show ?thesis
    by (simp add: hex_value_def hex16_def nibble_eq foldl_hex_digits)
qed

lemma hex16_digits: "set (hex16 w) \<subseteq> set ''0123456789ABCDEF''"
proof
  fix c
  assume "c \<in> set (hex16 w)"
  then obtain i where "c = hex_digit (unat (drop_bit (4 * i) w AND 0xF))"
    by (auto simp add: hex16_def)
  with hex_digit_in [OF nibble_less, of "drop_bit (4 * i) w"]
  show "c \<in> set ''0123456789ABCDEF''"
    by simp
qed

lemma length_hex16: "length (hex16 w) = 16"
  by (simp add: hex16_def)

lemma twords_halves: "unat a = unat (twords_high a) * 2 ^ 64 + unat (twords_low a)"
proof -
  have "unat (twords_low a) = unat a mod 2 ^ 64"
    by (simp add: twords_low_def unsigned_ucast_eq take_bit_eq_mod)
  moreover have "unat (twords_high a) = unat a div 2 ^ 64"
  proof -
    have "unat a < 2 ^ 64 * 2 ^ 64"
      using unsigned_less [of a, where ?'a = nat] by simp
    then have "unat a div 2 ^ 64 < 2 ^ 64"
      by (simp only: less_mult_imp_div_less)
    moreover have "unat (twords_high a) = take_bit 64 (drop_bit 64 (unat a))"
      unfolding twords_high_def unsigned_ucast_eq unat_drop_bit_eq by simp
    then have "unat (twords_high a) = unat a div 2 ^ 64 mod 2 ^ 64"
      by (simp only: take_bit_eq_mod drop_bit_eq_div)
    ultimately show ?thesis
      by simp
  qed
  ultimately show ?thesis
    by simp
qed


lemma foldl_hex_shift:
  "foldl (\<lambda>acc c. 16 * acc + hex_digit_value c) acc s =
    acc * 16 ^ length s + foldl (\<lambda>acc c. 16 * acc + hex_digit_value c) 0 s"
proof (induction s arbitrary: acc)
  case Nil
  show ?case by simp
next
  case (Cons c s)
  let ?g = "\<lambda>acc c. 16 * acc + hex_digit_value c"
  have "foldl ?g acc (c # s) = foldl ?g (16 * acc + hex_digit_value c) s"
    by simp
  also have "\<dots> = (16 * acc + hex_digit_value c) * 16 ^ length s + foldl ?g 0 s"
    by (rule Cons.IH)
  also have "\<dots> = acc * 16 ^ length (c # s) + (hex_digit_value c * 16 ^ length s + foldl ?g 0 s)"
    by (simp add: algebra_simps)
  also have "hex_digit_value c * 16 ^ length s + foldl ?g 0 s = foldl ?g (hex_digit_value c) s"
    by (rule Cons.IH [symmetric])
  also have "foldl ?g (hex_digit_value c) s = foldl ?g 0 (c # s)"
    by simp
  finally show ?case .
qed

lemma hex_value_append: "hex_value (s @ t) = hex_value s * 16 ^ length t + hex_value t"
  unfolding hex_value_def foldl_append by (rule foldl_hex_shift)

lemma hex_value_halves: "hex_value (hex16 (twords_high a) @ hex16 (twords_low a)) = unat a"
  by (simp add: hex_value_append hex_value_hex16 length_hex16 twords_halves [of a])

lemma diagnostic_layout:
  "diagnostic a b x e =
    ''error in __modti3: 0x'' @ hex16 (twords_high a) @ hex16 (twords_low a) @
    '' % 0x'' @ hex16 (twords_high b) @ hex16 (twords_low b) @
    '' = 0x'' @ hex16 (twords_high x) @ hex16 (twords_low x) @
    '', expected 0x'' @ hex16 (twords_high e) @ hex16 (twords_low e) @ [newline]"
  by (simp only: diagnostic_def)

lemma diagnostic_fields:
  "length (diagnostic a b x e) = 173"
  "hex_value (take 32 (drop 21 (diagnostic a b x e))) = unat a"
  "hex_value (take 32 (drop 58 (diagnostic a b x e))) = unat b"
  "hex_value (take 32 (drop 95 (diagnostic a b x e))) = unat x"
  "hex_value (take 32 (drop 140 (diagnostic a b x e))) = unat e"
proof -
  let ?A = "hex16 (twords_high a) @ hex16 (twords_low a)"
  let ?B = "hex16 (twords_high b) @ hex16 (twords_low b)"
  let ?X = "hex16 (twords_high x) @ hex16 (twords_low x)"
  let ?E = "hex16 (twords_high e) @ hex16 (twords_low e)"
  have l: "length ?A = 32" "length ?B = 32" "length ?X = 32" "length ?E = 32"
    by (simp_all add: length_hex16)
  have d: "diagnostic a b x e =
      ''error in __modti3: 0x'' @ ?A @ '' % 0x'' @ ?B @ '' = 0x'' @ ?X @ '', expected 0x'' @ ?E @ [newline]"
    by (simp add: diagnostic_def)
  show "length (diagnostic a b x e) = 173"
    unfolding d by (simp add: length_hex16)
  have "take 32 (drop 21 (diagnostic a b x e)) = ?A"
    unfolding d using l by simp
  then show "hex_value (take 32 (drop 21 (diagnostic a b x e))) = unat a"
    by (simp only: hex_value_halves)
  have "take 32 (drop 58 (diagnostic a b x e)) = ?B"
    unfolding d using l by simp
  then show "hex_value (take 32 (drop 58 (diagnostic a b x e))) = unat b"
    by (simp only: hex_value_halves)
  have "take 32 (drop 95 (diagnostic a b x e)) = ?X"
    unfolding d using l by simp
  then show "hex_value (take 32 (drop 95 (diagnostic a b x e))) = unat x"
    by (simp only: hex_value_halves)
  have "take 32 (drop 140 (diagnostic a b x e)) = ?E"
    unfolding d using l by simp
  then show "hex_value (take 32 (drop 140 (diagnostic a b x e))) = unat e"
    by (simp only: hex_value_halves)
qed

section \<open>Exit code and output of the harness\<close>

text \<open>
  C8: for every function under test, if every case of the table gives its expected
  value, \<^verbatim>\<open>main\<close> prints nothing and returns 0; in the build that has the tests
  (\<^verbatim>\<open>__x86_64\<close>), if a case fails and every case before it passes, \<^verbatim>\<open>main\<close> returns 1
  there, having printed the diagnostic of that case and nothing else, whatever the later
  cases would give; \<^verbatim>\<open>test__modti3\<close> prints nothing and returns 0 for a passing case,
  and prints the diagnostic and returns 1 for a failing one; the diagnostic is one line,
  that is, it holds one newline, as its last character. The line is the fixed text of
  the format with, after each \<^verbatim>\<open>0x\<close>, the 16 digits of the high half and the 16 digits
  of the low half of, in this order, the dividend, the divisor, the actual and the
  expected result; read as a hexadecimal number, each such field of 32 digits is the
  128-bit value it stands for. Every half is rendered as exactly 16 upper-case
  hexadecimal digits that denote it, and the halves of a value are its upper and lower
  64 bits.
\<close>

theorem main_exit_code:
  "((\<forall>(a, b, e) \<in> set modti3_cases. f a b = e) \<longrightarrow> main x86_64 f = ([], 0)) \<and>
   (modti3_cases = pre @ (a, b, e) # post \<and> (\<forall>(a', b', e') \<in> set pre. f a' b' = e') \<and> f a b \<noteq> e \<longrightarrow>
      main True f = (diagnostic a b (f a b) e, 1)) \<and>
   test__modti3 f c d x = (if f c d = x then ([], 0) else (diagnostic c d (f c d) x, 1)) \<and>
   count_list (diagnostic c d y x) newline = 1 \<and> last (diagnostic c d y x) = newline \<and>
   diagnostic c d y x =
     ''error in __modti3: 0x'' @ hex16 (twords_high c) @ hex16 (twords_low c) @
     '' % 0x'' @ hex16 (twords_high d) @ hex16 (twords_low d) @
     '' = 0x'' @ hex16 (twords_high y) @ hex16 (twords_low y) @
     '', expected 0x'' @ hex16 (twords_high x) @ hex16 (twords_low x) @ [newline] \<and>
   length (diagnostic c d y x) = 173 \<and>
   hex_value (take 32 (drop 21 (diagnostic c d y x))) = unat c \<and>
   hex_value (take 32 (drop 58 (diagnostic c d y x))) = unat d \<and>
   hex_value (take 32 (drop 95 (diagnostic c d y x))) = unat y \<and>
   hex_value (take 32 (drop 140 (diagnostic c d y x))) = unat x \<and>
   length (hex16 w) = 16 \<and> set (hex16 w) \<subseteq> set ''0123456789ABCDEF'' \<and>
   hex_value (hex16 w) = unat w \<and>
   unat c = unat (twords_high c) * 2 ^ 64 + unat (twords_low c)"
proof (intro conjI impI)
  show "diagnostic c d y x =
     ''error in __modti3: 0x'' @ hex16 (twords_high c) @ hex16 (twords_low c) @
     '' % 0x'' @ hex16 (twords_high d) @ hex16 (twords_low d) @
     '' = 0x'' @ hex16 (twords_high y) @ hex16 (twords_low y) @
     '', expected 0x'' @ hex16 (twords_high x) @ hex16 (twords_low x) @ [newline]"
    by (rule diagnostic_layout)
  show "length (diagnostic c d y x) = 173"
    and "hex_value (take 32 (drop 21 (diagnostic c d y x))) = unat c"
    and "hex_value (take 32 (drop 58 (diagnostic c d y x))) = unat d"
    and "hex_value (take 32 (drop 95 (diagnostic c d y x))) = unat y"
    and "hex_value (take 32 (drop 140 (diagnostic c d y x))) = unat x"
    by (rule diagnostic_fields)+
  show "length (hex16 w) = 16"
    by (rule length_hex16)
  show "set (hex16 w) \<subseteq> set ''0123456789ABCDEF''"
    by (rule hex16_digits)
  show "hex_value (hex16 w) = unat w"
    by (rule hex_value_hex16)
  show "unat c = unat (twords_high c) * 2 ^ 64 + unat (twords_low c)"
    by (rule twords_halves)
  show "main x86_64 f = ([], 0)" if "\<forall>(a, b, e) \<in> set modti3_cases. f a b = e"
    using that by (simp add: main_def run_cases_all_pass)
  show "main True f = (diagnostic a b (f a b) e, 1)"
    if "modti3_cases = pre @ (a, b, e) # post \<and> (\<forall>(a', b', e') \<in> set pre. f a' b' = e') \<and> f a b \<noteq> e"
  proof -
    note sp = that [THEN conjunct1]
      and p = that [THEN conjunct2, THEN conjunct1]
      and ne = that [THEN conjunct2, THEN conjunct2]
    from p ne have "run_cases f (pre @ (a, b, e) # post) = (diagnostic a b (f a b) e, 1)"
      by (rule run_cases_first_failure)
    then show ?thesis
      by (simp only: main_def sp if_True)
  qed
  show "test__modti3 f c d x = (if f c d = x then ([], 0) else (diagnostic c d (f c d) x, 1))"
    by (rule test__modti3_eq)
  show "count_list (diagnostic c d y x) newline = 1" and "last (diagnostic c d y x) = newline"
    by (rule diagnostic_one_line)+
qed

lemma modti3_on_cases: "\<forall>(a, b, e) \<in> set modti3_cases. modti3 a b = e"
  by (simp add: modti3_cases_def modti3_def make_ti_def udivmodti4_def Let_def)

theorem main_exit_code_witness:
  "list_all (\<lambda>(a, b, e). modti3 a b = e) modti3_cases \<and> main True modti3 = ([], 0) \<and>
   modti3_cases = take 2 modti3_cases @ (5, 3, 2) # drop 3 modti3_cases \<and>
   list_all (\<lambda>(a, b, e). 0 = e) (take 2 modti3_cases) \<and>
   (0 :: ti_int) \<noteq> 2 \<and>
   main True (\<lambda>a b. 0) =
     (''error in __modti3: 0x00000000000000000000000000000005 % 0x00000000000000000000000000000003 = 0x00000000000000000000000000000000, expected 0x00000000000000000000000000000002'' @ [newline], 1) \<and>
   hex_value ''00000000000000000000000000000005'' = 5 \<and>
   hex16 0x8000000000000A1F = ''8000000000000A1F''"
proof -
  have hv: "hex_value ''00000000000000000000000000000005'' = 5"
    by (simp add: hex_value_def hex_digit_value_def)
  have hx: "hex16 0x8000000000000A1F = ''8000000000000A1F''"
    by (simp add: hex16_def hex_digit_def upt_rec)
  have split: "modti3_cases = take 2 modti3_cases @ (5, 3, 2) # drop 3 modti3_cases"
    by (simp add: modti3_cases_def)
  have pre: "\<forall>(a', b', e') \<in> set (take 2 modti3_cases). (\<lambda>a b. 0) a' b' = e'"
    by (simp add: modti3_cases_def)
  have ne: "(\<lambda>a b. 0 :: ti_int) 5 3 \<noteq> 2"
    by simp
  have d: "diagnostic 5 3 0 2 = ''error in __modti3: 0x00000000000000000000000000000005 % 0x00000000000000000000000000000003 = 0x00000000000000000000000000000000, expected 0x00000000000000000000000000000002'' @ [newline]"
    by (simp add: diagnostic_def hex16_def hex_digit_def twords_high_def twords_low_def upt_rec)
  from main_exit_code [where f = modti3 and ?x86_64.0 = True, THEN conjunct1] modti3_on_cases
  have pass: "main True modti3 = ([], 0)"
    by (rule mp)
  from split pre ne
  have "modti3_cases = take 2 modti3_cases @ (5, 3, 2) # drop 3 modti3_cases \<and>
      (\<forall>(a', b', e') \<in> set (take 2 modti3_cases). (\<lambda>a b. 0) a' b' = e') \<and>
      (\<lambda>a b. 0 :: ti_int) 5 3 \<noteq> 2"
    by (intro conjI)
  with main_exit_code [where f = "\<lambda>a b. 0" and pre = "take 2 modti3_cases"
      and a = 5 and b = 3 and e = 2 and post = "drop 3 modti3_cases",
      THEN conjunct2, THEN conjunct1]
  have "main True (\<lambda>a b. 0) = (diagnostic 5 3 ((\<lambda>a b. 0) 5 3) 2, 1)"
    by (rule mp)
  then have fail: "main True (\<lambda>a b. 0) = (diagnostic 5 3 0 2, 1)"
    by simp
  have "list_all (\<lambda>(a, b, e). modti3 a b = e) modti3_cases"
    using modti3_on_cases by (simp only: list_all_iff)
  moreover have "list_all (\<lambda>(a, b, e). 0 = e) (take 2 modti3_cases)"
    using pre by (simp only: list_all_iff)
  moreover have "(0 :: ti_int) \<noteq> 2"
    by simp
  ultimately show ?thesis
    using pass split fail hv hx unfolding d by (intro conjI)
qed

text \<open>
  C9: without \<^verbatim>\<open>__x86_64\<close>, \<^verbatim>\<open>main\<close> returns 0 and prints nothing, whatever the
  function under test does: no case is run.
\<close>

theorem main_without_x86_64: "main False f = ([], 0)"
  by (simp add: main_def)


section \<open>The wide modulo on the table's boundary values\<close>

text \<open>
  C2, as the code has it: the 128-bit value with high word \<^verbatim>\<open>0x8000000000000000\<close> and
  low word 0 is the most negative \<^verbatim>\<open>ti_int\<close>; its remainder modulo 3 and modulo
  \<open>- 3\<close> is \<open>- 2\<close>, which is also what the table of the test expects (lines 86
  to 89).
\<close>

theorem modti3_wide_min_by_3:
  "twords_high (make_ti 0x8000000000000000 0) = 0x8000000000000000 \<and>
   twords_low (make_ti 0x8000000000000000 0) = 0 \<and>
   sint (make_ti 0x8000000000000000 0) = - (2 ^ 127) \<and>
   modti3 (make_ti 0x8000000000000000 0) 3 = - 2 \<and>
   modti3 (make_ti 0x8000000000000000 0) (- 3) = - 2 \<and>
   (make_ti 0x8000000000000000 0, 3, - 2) \<in> set modti3_cases \<and>
   (make_ti 0x8000000000000000 0, - 3, - 2) \<in> set modti3_cases"
  by (simp add: modti3_cases_def modti3_def make_ti_def udivmodti4_def Let_def
      twords_high_def twords_low_def)

text \<open>C2 as the claim words it, with remainder 2 for both divisors, fails.\<close>

theorem modti3_wide_min_by_3_counterexample:
  "\<not> (modti3 (make_ti 0x8000000000000000 0) 3 = 2 \<and>
      modti3 (make_ti 0x8000000000000000 0) (- 3) = 2)"
  by (simp add: modti3_def make_ti_def udivmodti4_def Let_def)

text \<open>
  C3, as the code has it: for the most negative value of the operand type, the
  remainder modulo 1 and modulo 2 is 0, and the remainder modulo 3 and modulo \<open>- 3\<close>
  is \<open>- 2\<close>; negating the most negative value gives it back, and the result is
  computed all the same. This holds for the wide modulo at the most negative
  \<^verbatim>\<open>ti_int\<close> and for the native modulo at the most negative \<^verbatim>\<open>si_int\<close>. The
  remainder 2 belongs to the dividend \<open>2 ^ 63\<close> of lines 73 to 76, which is not the
  most negative \<^verbatim>\<open>ti_int\<close>.
\<close>

theorem modulo_most_negative:
  "sint TI_MIN = - (2 ^ 127) \<and> - TI_MIN = TI_MIN \<and>
   modti3 TI_MIN 1 = 0 \<and> modti3 TI_MIN 2 = 0 \<and>
   modti3 TI_MIN 3 = - 2 \<and> modti3 TI_MIN (- 3) = - 2 \<and>
   sint SI_MIN = - (2 ^ 31) \<and> - SI_MIN = SI_MIN \<and>
   modulo_native (div) SI_MIN 1 = 0 \<and> modulo_native (div) SI_MIN 2 = 0 \<and>
   modulo_native (div) SI_MIN 3 = - 2 \<and> modulo_native (div) SI_MIN (- 3) = - 2 \<and>
   sint (0x8000000000000000 :: ti_int) = 2 ^ 63 \<and>
   modti3 0x8000000000000000 3 = 2 \<and> modti3 0x8000000000000000 (- 3) = 2"
proof -
  have "sint TI_MIN = - (2 ^ 127)" "- TI_MIN = TI_MIN"
    "modti3 TI_MIN 1 = 0" "modti3 TI_MIN 2 = 0"
    "modti3 TI_MIN 3 = - 2" "modti3 TI_MIN (- 3) = - 2"
    by (simp_all add: TI_MIN_def modti3_def make_ti_def udivmodti4_def Let_def)
  moreover have "sint SI_MIN = - (2 ^ 31)" "- SI_MIN = SI_MIN"
    "modulo_native (div) SI_MIN 1 = 0" "modulo_native (div) SI_MIN 2 = 0"
    "modulo_native (div) SI_MIN 3 = - 2" "modulo_native (div) SI_MIN (- 3) = - 2"
    by (simp_all add: SI_MIN_def modulo_native_def divsi3_def sign_mask_def
        bits_in_word_m1_def sizeof_si_int_def CHAR_BIT_def negate_if_def Let_def)
  moreover have "sint (0x8000000000000000 :: ti_int) = 2 ^ 63"
    "modti3 0x8000000000000000 3 = 2" "modti3 0x8000000000000000 (- 3) = 2"
    by (simp_all add: modti3_def udivmodti4_def Let_def)
  ultimately show ?thesis
    by blast
qed

text \<open>
  C3 as the claim words it, with remainder 2 for the divisors 3 and \<open>- 3\<close>, fails for
  the wide and for the native modulo.
\<close>

theorem modulo_most_negative_counterexample:
  "\<not> (modti3 TI_MIN 1 = 0 \<and> modti3 TI_MIN 2 = 0 \<and>
      modti3 TI_MIN 3 = 2 \<and> modti3 TI_MIN (- 3) = 2) \<and>
   \<not> (modulo_native (div) SI_MIN 1 = 0 \<and> modulo_native (div) SI_MIN 2 = 0 \<and>
      modulo_native (div) SI_MIN 3 = 2 \<and> modulo_native (div) SI_MIN (- 3) = 2)"
proof -
  have "modti3 TI_MIN 3 = - 2"
    by (simp add: TI_MIN_def modti3_def make_ti_def udivmodti4_def Let_def)
  moreover have "modulo_native (div) SI_MIN 3 = - 2"
    by (simp add: SI_MIN_def modulo_native_def divsi3_def sign_mask_def
        bits_in_word_m1_def sizeof_si_int_def CHAR_BIT_def negate_if_def Let_def)
  ultimately show ?thesis
    by simp
qed

end
